theory Spec2Isabelle
  imports Main "HOL-Library.Word"
begin

section \<open>JavaScript strings\<close>

text \<open>
  A JavaScript string is a sequence of UTF-16 code units; \<open>length\<close>, \<open>indexOf\<close>,
  \<open>slice\<close> and \<open>trim\<close> all count and compare code units. The string literals of
  the sources are ASCII apart from the ideographic full stop (U+3002) that the
  chunker searches for, which is a single code unit.
\<close>

type_synonym jsstring = "16 word list"

definition lit :: "string \<Rightarrow> jsstring" where
  "lit s = map (\<lambda>c. of_nat (of_char c)) s"

definition newline :: "16 word" where
  "newline = 0x000A"

definition period :: "16 word" where
  "period = 0x3002"

text \<open>
  \<open>String.prototype.indexOf(ch, position)\<close> for a one-unit search string: the
  position is clamped to \<open>[0, length]\<close>, the result is the first index at or after
  it that holds \<open>ch\<close>, and \<open>-1\<close> when there is none.
\<close>

fun scanFrom :: "16 word \<Rightarrow> jsstring \<Rightarrow> int \<Rightarrow> int" where
  "scanFrom ch [] k = -1"
| "scanFrom ch (x # xs) k = (if x = ch then k else scanFrom ch xs (k + 1))"

definition indexOf :: "jsstring \<Rightarrow> 16 word \<Rightarrow> int \<Rightarrow> int" where
  "indexOf text ch position =
     (let k = min (max position 0) (int (length text))
      in scanFrom ch (drop (nat k) text) k)"

text \<open>
  \<open>String.prototype.slice(start, end)\<close>: a negative bound counts from the end of
  the string, both bounds are clamped to \<open>[0, length]\<close>, and an empty span gives
  the empty string.
\<close>

definition slice_js :: "jsstring \<Rightarrow> int \<Rightarrow> int \<Rightarrow> jsstring" where
  "slice_js text start finish =
     (let len = int (length text);
          first = (if start < 0 then max (len + start) 0 else min start len);
          final = (if finish < 0 then max (len + finish) 0 else min finish len)
      in take (nat (final - first)) (drop (nat first) text))"

text \<open>
  \<open>String.prototype.trim()\<close> strips the ECMAScript WhiteSpace and LineTerminator
  code units from both ends.
\<close>

definition isWhiteSpace :: "16 word \<Rightarrow> bool" where
  "isWhiteSpace u \<longleftrightarrow>
     u \<in> {0x0009, 0x000A, 0x000B, 0x000C, 0x000D, 0x0020, 0x00A0, 0x1680,
          0x2000, 0x2001, 0x2002, 0x2003, 0x2004, 0x2005, 0x2006, 0x2007,
          0x2008, 0x2009, 0x200A, 0x2028, 0x2029, 0x202F, 0x205F, 0x3000, 0xFEFF}"

definition trim :: "jsstring \<Rightarrow> jsstring" where
  "trim s = rev (dropWhile isWhiteSpace (rev (dropWhile isWhiteSpace s)))"

section \<open>JavaScript numbers\<close>

text \<open>
  The numbers of the chunker (\<open>startIndex\<close>, \<open>endIndex\<close>, \<open>chunkSize\<close>, \<open>overlap\<close>)
  are IEEE 754 doubles. They count code units, so they are integers here, and a
  sum or difference of two of them is the exact result rounded to the nearest
  double, ties to the even significand: exact up to \<open>2 ^ 53\<close> in magnitude, and a
  multiple of \<open>ulp\<close> beyond. The exponent range is not bounded here: a result
  beyond \<open>2 ^ 1024\<close> stays a (large) integer where the double is an infinity.
\<close>

function ulp :: "int \<Rightarrow> int" where
  "ulp m = (if m < 2 ^ 53 then 1 else 2 * ulp (m div 2))"
  by pat_completeness auto
termination
  by (relation "measure nat") auto

declare ulp.simps [simp del]

definition roundMagnitude :: "int \<Rightarrow> int" where
  "roundMagnitude m =
     (let u = ulp m; q = m div u; r = m mod u
      in if 2 * r < u then q * u
         else if u < 2 * r then (q + 1) * u
         else if even q then q * u else (q + 1) * u)"

definition roundDouble :: "int \<Rightarrow> int" where
  "roundDouble x = (if x < 0 then - roundMagnitude (- x) else roundMagnitude x)"

definition jsAdd :: "int \<Rightarrow> int \<Rightarrow> int" where
  "jsAdd a b = roundDouble (a + b)"

definition jsSub :: "int \<Rightarrow> int \<Rightarrow> int" where
  "jsSub a b = roundDouble (a - b)"

section \<open>The chunker (src/scripts/ingest.js)\<close>

definition CHUNK_SIZE :: int where
  "CHUNK_SIZE = 500"

definition CHUNK_OVERLAP :: int where
  "CHUNK_OVERLAP = 100"

text \<open>
  The state of the \<open>while\<close> loop of \<open>chunkText\<close>: the variable \<open>startIndex\<close> and the
  array \<open>chunks\<close>. The field \<open>cutStarts\<close> is a ghost: it records the value of
  \<open>startIndex\<close> at which each pushed chunk was sliced, in push order, and nothing
  reads it.
\<close>

record chunk_state =
  startIndex :: int
  chunks :: "jsstring list"
  cutStarts :: "int list"

text \<open>
  Lines 23 to 35: the nominal end and its adjustment to a nearby boundary. The
  sum \<open>nextPeriod + 1\<close> is exact: an index is below the length of the string,
  which no JavaScript string has beyond \<open>2 ^ 53 - 1\<close>.
\<close>

definition cutEnd :: "jsstring \<Rightarrow> int \<Rightarrow> int \<Rightarrow> int" where
  "cutEnd text chunkSize start =
     (let endIndex = jsAdd start chunkSize
      in if endIndex < int (length text) then
           (let nextNewline = indexOf text newline endIndex;
                nextPeriod = indexOf text period endIndex
            in if nextNewline \<noteq> -1 \<and> jsSub nextNewline endIndex < 50 then nextNewline
               else if nextPeriod \<noteq> -1 \<and> jsSub nextPeriod endIndex < 50 then nextPeriod + 1
               else endIndex)
         else endIndex)"

text \<open>Lines 40 to 44: the next start, with the guard against an infinite loop.\<close>

definition nextStart :: "int \<Rightarrow> int \<Rightarrow> int \<Rightarrow> jsstring \<Rightarrow> int" where
  "nextStart chunkSize overlap endIndex lastChunk =
     (let start = jsSub endIndex overlap
      in if start \<le> jsSub (int (length lastChunk)) chunkSize then jsAdd start overlap
         else start)"

text \<open>One iteration of the loop body (lines 23 to 44).\<close>

definition chunkStep :: "jsstring \<Rightarrow> int \<Rightarrow> int \<Rightarrow> chunk_state \<Rightarrow> chunk_state" where
  "chunkStep text chunkSize overlap st =
     (let endIndex = cutEnd text chunkSize (startIndex st);
          chunk = trim (slice_js text (startIndex st) endIndex)
      in \<lparr>startIndex = nextStart chunkSize overlap endIndex chunk,
          chunks = chunks st @ [chunk],
          cutStarts = cutStarts st @ [startIndex st]\<rparr>)"

text \<open>
  The loop itself. Nothing in the source bounds the number of iterations, so the
  loop is a partial function: \<open>None\<close> is a run that never leaves the loop.
\<close>

partial_function (option) chunkLoop ::
  "jsstring \<Rightarrow> int \<Rightarrow> int \<Rightarrow> chunk_state \<Rightarrow> chunk_state option" where
  "chunkLoop text chunkSize overlap st =
     (if startIndex st < int (length text)
      then chunkLoop text chunkSize overlap (chunkStep text chunkSize overlap st)
      else Some st)"

declare chunkLoop.simps [code]

definition chunkInit :: chunk_state where
  "chunkInit = \<lparr>startIndex = 0, chunks = [], cutStarts = []\<rparr>"

definition MIN_CHUNK_LENGTH :: nat where
  "MIN_CHUNK_LENGTH = 10"

definition chunkText :: "jsstring \<Rightarrow> int \<Rightarrow> int \<Rightarrow> jsstring list option" where
  "chunkText text chunkSize overlap =
     map_option (\<lambda>st. filter (\<lambda>chunk. MIN_CHUNK_LENGTH < length chunk) (chunks st))
       (chunkLoop text chunkSize overlap chunkInit)"

text \<open>The ghost trace of one run of \<open>chunkText\<close>: the start offsets of its cuts.\<close>

definition chunkStarts :: "jsstring \<Rightarrow> int \<Rightarrow> int \<Rightarrow> int list option" where
  "chunkStarts text chunkSize overlap =
     map_option cutStarts (chunkLoop text chunkSize overlap chunkInit)"

section \<open>Values that may be undefined\<close>

text \<open>
  A property that the sources read without checking it first (\<open>result.text\<close>,
  \<open>part.result\<close>, \<open>metadata.source\<close>, \<open>req.body.prompt\<close>) is a string or
  \<open>undefined\<close>: \<open>None\<close> is \<open>undefined\<close>. A value is truthy when it is a non-empty
  string; \<open>a || b\<close> is \<open>a\<close> when \<open>a\<close> is truthy and \<open>b\<close> otherwise; string
  concatenation and template literals turn \<open>undefined\<close> into the text
  \<open>undefined\<close>.
\<close>

definition truthy :: "jsstring option \<Rightarrow> bool" where
  "truthy v = (case v of None \<Rightarrow> False | Some s \<Rightarrow> s \<noteq> [])"

definition orElse :: "jsstring option \<Rightarrow> jsstring option \<Rightarrow> jsstring option" where
  "orElse a b = (if truthy a then a else b)"

definition toString :: "jsstring option \<Rightarrow> jsstring" where
  "toString v = (case v of None \<Rightarrow> lit ''undefined'' | Some s \<Rightarrow> s)"

text \<open>
  What the sources raise, as values: a collaborator (embedding service, vector
  index, language model) that fails, and the \<open>TypeError\<close> of reading a property
  of \<open>undefined\<close>.
\<close>

datatype error = UpstreamServiceError | TypeError

section \<open>The knowledge retriever (src/services/ragService.js)\<close>

record metadata =
  md_text :: "jsstring option"
  md_source :: "jsstring option"

record match =
  match_metadata :: "metadata option"

record 'v queryRequest =
  vector :: 'v
  topK :: nat
  includeMetadata :: bool

record queryResponse =
  matches :: "match list option"

definition NAMESPACE :: jsstring where
  "NAMESPACE = lit ''my-company-docs''"

definition NO_MATCH :: jsstring where
  "NO_MATCH = lit ''No relevant information found in the knowledge base.''"

definition UNKNOWN_DOCUMENT :: jsstring where
  "UNKNOWN_DOCUMENT = lit ''unknown document''"

definition separator :: jsstring where
  "separator = [newline, newline] @ lit ''---'' @ [newline, newline]"

text \<open>The callback of \<open>matches.map\<close> (lines 30 to 33).\<close>

definition formatMatch :: "match \<Rightarrow> error + jsstring" where
  "formatMatch m =
     (case match_metadata m of
        None \<Rightarrow> Inl TypeError
      | Some md \<Rightarrow>
          (let sourceName = orElse (md_source md) (Some UNKNOWN_DOCUMENT)
           in Inr (lit ''[source: '' @ toString sourceName @ lit '']'' @ [newline]
                   @ toString (md_text md))))"

text \<open>\<open>Array.prototype.map\<close> with a callback that may raise: the first raise ends it.\<close>

fun mapMatches :: "match list \<Rightarrow> error + jsstring list" where
  "mapMatches [] = Inr []"
| "mapMatches (m # ms) =
     (case formatMatch m of
        Inl e \<Rightarrow> Inl e
      | Inr block \<Rightarrow>
          (case mapMatches ms of Inl e \<Rightarrow> Inl e | Inr blocks \<Rightarrow> Inr (block # blocks)))"

text \<open>\<open>Array.prototype.join\<close> on strings.\<close>

fun join :: "jsstring \<Rightarrow> jsstring list \<Rightarrow> jsstring" where
  "join sep [] = []"
| "join sep [x] = x"
| "join sep (x # y # ys) = x @ sep @ join sep (y # ys)"

text \<open>
  \<open>retrieveKnowledge\<close>. The embedding client and the vector index are the
  collaborators \<open>embedOne\<close> (the call \<open>embed\<close> of the SDK) and \<open>index\<close>; the index
  receives the namespace and the query object.
\<close>

definition retrieveKnowledge ::
  "(jsstring \<Rightarrow> error + 'v) \<Rightarrow> (jsstring \<Rightarrow> 'v queryRequest \<Rightarrow> error + queryResponse)
     \<Rightarrow> jsstring \<Rightarrow> error + jsstring" where
  "retrieveKnowledge embedOne index query =
     (case embedOne query of
        Inl e \<Rightarrow> Inl e
      | Inr embedding \<Rightarrow>
          (case index NAMESPACE \<lparr>vector = embedding, topK = 2, includeMetadata = True\<rparr> of
             Inl e \<Rightarrow> Inl e
           | Inr queryResponse \<Rightarrow>
               (case matches queryResponse of
                  None \<Rightarrow> Inr NO_MATCH
                | Some ms \<Rightarrow>
                    if length ms = 0 then Inr NO_MATCH
                    else (case mapMatches ms of
                            Inl e \<Rightarrow> Inl e
                          | Inr blocks \<Rightarrow> Inr (join separator blocks)))))"

text \<open>
  The contract of the vector index that the retriever relies on: a query answers
  with at most \<open>topK\<close> matches.
\<close>

definition honoursTopK :: "(jsstring \<Rightarrow> 'v queryRequest \<Rightarrow> error + queryResponse) \<Rightarrow> bool" where
  "honoursTopK index \<longleftrightarrow>
     (\<forall>ns request ms. index ns request = Inr \<lparr>matches = Some ms\<rparr> \<longrightarrow> length ms \<le> topK request)"

section \<open>The agent orchestrator (src/controllers/agentController.js)\<close>

datatype part = ToolResultPart (part_result: "jsstring option") (part_output: "jsstring option")
  | OtherPart

record step =
  content :: "part list option"

record genResult =
  gen_text :: "jsstring option"
  gen_steps :: "step list"

record toolArgs =
  query :: "jsstring option"

text \<open>
  The request as the handler reads it: \<open>req.body\<close> is the parsed JSON body, or
  \<open>undefined\<close> when the body parser found none to parse (Express 5); the body
  holds the prompt or lacks it.
\<close>

record requestBody =
  prompt :: "jsstring option"

record request =
  reqBody :: "requestBody option"

datatype body = ErrorBody jsstring | ChatBody (question: jsstring) (answer: jsstring)

record response =
  status :: nat
  body :: body

text \<open>
  The calls of \<open>generateText\<close> that a request makes, in order: the primary call
  carries the tool \<open>searchCompanyDocs\<close>, the synthesis call carries no tool. Each is
  logged with its prompt.
\<close>

datatype modelCall = ToolEnabledCall jsstring | PlainCall jsstring

definition APOLOGY :: jsstring where
  "APOLOGY =
     lit ''Sorry, I found information in the documentation, but couldn't properly summarize it.''"

text \<open>The \<open>execute\<close> callback of the tool (lines 30 to 35).\<close>

definition searchCompanyDocs ::
  "(jsstring \<Rightarrow> error + 'v) \<Rightarrow> (jsstring \<Rightarrow> 'v queryRequest \<Rightarrow> error + queryResponse)
     \<Rightarrow> jsstring \<Rightarrow> toolArgs \<Rightarrow> error + jsstring" where
  "searchCompanyDocs embedOne index userPrompt args =
     (let searchQuery = toString (orElse (query args) (Some userPrompt))
      in retrieveKnowledge embedOne index searchQuery)"

text \<open>Lines 49 to 59: the tool results of the transcript, each followed by a newline.\<close>

definition addPart :: "jsstring \<Rightarrow> part \<Rightarrow> jsstring" where
  "addPart rawToolOutput p =
     (case p of
        ToolResultPart r out \<Rightarrow> rawToolOutput @ toString (orElse r out) @ [newline]
      | OtherPart \<Rightarrow> rawToolOutput)"

definition addStep :: "jsstring \<Rightarrow> step \<Rightarrow> jsstring" where
  "addStep rawToolOutput st =
     (case content st of None \<Rightarrow> rawToolOutput | Some ps \<Rightarrow> foldl addPart rawToolOutput ps)"

definition collectToolOutput :: "step list \<Rightarrow> jsstring" where
  "collectToolOutput steps = foldl addStep [] steps"

text \<open>Line 68: the prompt of the synthesis call.\<close>

definition synthesisPrompt :: "jsstring \<Rightarrow> jsstring \<Rightarrow> jsstring" where
  "synthesisPrompt userPrompt rawToolOutput =
     lit ''User Question: '' @ userPrompt @ [newline, newline] @ lit ''<Context>'' @ [newline]
       @ rawToolOutput @ [newline] @ lit ''</Context>''"

text \<open>Lines 74 to 78: the final safety net.\<close>

definition safetyNet :: "jsstring option \<Rightarrow> jsstring" where
  "safetyNet finalAnswer =
     (case finalAnswer of
        None \<Rightarrow> APOLOGY
      | Some a \<Rightarrow> if a = [] \<or> a = lit ''undefined'' then APOLOGY else a)"

definition ok200 :: "jsstring \<Rightarrow> jsstring option \<Rightarrow> response" where
  "ok200 userPrompt finalAnswer =
     \<lparr>status = 200, body = ChatBody userPrompt (safetyNet finalAnswer)\<rparr>"

definition error500 :: response where
  "error500 = \<lparr>status = 500, body = ErrorBody (lit ''Internal Server Error'')\<rparr>"

definition error400 :: response where
  "error400 = \<lparr>status = 400, body = ErrorBody (lit ''Prompt is required'')\<rparr>"

text \<open>
  \<open>chatWithAgent\<close>. The language model is two collaborators: \<open>agent\<close> is
  \<open>generateText\<close> with the tool (it receives the prompt and the tool's callback and
  answers with \<open>text\<close> and \<open>steps\<close>), \<open>summarise\<close> is \<open>generateText\<close> without tools
  (it answers with \<open>text\<close>). Any raise inside the \<open>try\<close> block is the 500 response of
  the \<open>catch\<close>: a collaborator that fails, and the \<open>TypeError\<close> of destructuring
  \<open>req.body\<close> (line 8) when it is \<open>undefined\<close>. The result is the response sent and
  the log of model calls.
\<close>

definition chatWithAgent ::
  "(jsstring \<Rightarrow> (toolArgs \<Rightarrow> error + jsstring) \<Rightarrow> error + genResult)
     \<Rightarrow> (jsstring \<Rightarrow> error + jsstring option)
     \<Rightarrow> (jsstring \<Rightarrow> error + 'v) \<Rightarrow> (jsstring \<Rightarrow> 'v queryRequest \<Rightarrow> error + queryResponse)
     \<Rightarrow> request \<Rightarrow> response \<times> modelCall list" where
  "chatWithAgent agent summarise embedOne index req =
     (case reqBody req of
        None \<Rightarrow> (error500, [])
      | Some requestBody \<Rightarrow>
          if \<not> truthy (prompt requestBody) then (error400, [])
          else
            (let userPrompt = toString (prompt requestBody)
             in case agent userPrompt (searchCompanyDocs embedOne index userPrompt) of
                  Inl e \<Rightarrow> (error500, [ToolEnabledCall userPrompt])
                | Inr result \<Rightarrow>
                    if \<not> truthy (gen_text result) then
                      (let rawToolOutput = collectToolOutput (gen_steps result)
                       in if rawToolOutput \<noteq> [] then
                            (case summarise (synthesisPrompt userPrompt rawToolOutput) of
                               Inl e \<Rightarrow>
                                 (error500,
                                  [ToolEnabledCall userPrompt,
                                   PlainCall (synthesisPrompt userPrompt rawToolOutput)])
                             | Inr summaryText \<Rightarrow>
                                 (ok200 userPrompt summaryText,
                                  [ToolEnabledCall userPrompt,
                                   PlainCall (synthesisPrompt userPrompt rawToolOutput)]))
                          else (ok200 userPrompt (gen_text result),
                                [ToolEnabledCall userPrompt]))
                    else (ok200 userPrompt (gen_text result), [ToolEnabledCall userPrompt])))"

section \<open>The ingestion pipeline (src/scripts/ingest.js, main)\<close>

record chunkInfo =
  ci_text :: jsstring
  ci_source :: jsstring
  ci_chunkIndex :: nat

record 'v vectorRecord =
  rec_id :: jsstring
  rec_values :: "'v option"
  rec_metadata :: metadata

text \<open>The decimal text of a chunk index, as the template literal of line 106 prints it.\<close>

fun showNat :: "nat \<Rightarrow> jsstring" where
  "showNat n = (if n < 10 then [of_nat (48 + n)] else showNat (n div 10) @ [of_nat (48 + n mod 10)])"

declare showNat.simps [simp del]

definition endsWith :: "jsstring \<Rightarrow> jsstring \<Rightarrow> bool" where
  "endsWith s suffix \<longleftrightarrow>
     length suffix \<le> length s \<and> drop (length s - length suffix) s = suffix"

definition isDocFile :: "jsstring \<Rightarrow> bool" where
  "isDocFile f \<longleftrightarrow> endsWith f (lit ''.md'') \<or> endsWith f (lit ''.txt'')"

text \<open>Lines 73 to 83: the chunks of one file, bound to its name and their indices.\<close>

definition fileChunks :: "jsstring \<Rightarrow> jsstring \<Rightarrow> chunkInfo list option" where
  "fileChunks file fileContent =
     map_option
       (map (\<lambda>(i, chunk). \<lparr>ci_text = chunk, ci_source = file, ci_chunkIndex = i\<rparr>) \<circ> enumerate 0)
       (chunkText fileContent CHUNK_SIZE CHUNK_OVERLAP)"

text \<open>Lines 66 to 84: the loop over the files; \<open>readFile\<close> gives the text of a file.\<close>

fun collectChunks :: "(jsstring \<Rightarrow> jsstring) \<Rightarrow> jsstring list \<Rightarrow> chunkInfo list option" where
  "collectChunks readFile [] = Some []"
| "collectChunks readFile (file # files) =
     (case fileChunks file (readFile file) of
        None \<Rightarrow> None
      | Some cs \<Rightarrow> map_option (\<lambda>rest. cs @ rest) (collectChunks readFile files))"

text \<open>
  Lines 105 to 112: one record per chunk. \<open>embeddings[i]\<close> past the end of the array
  is \<open>undefined\<close>.
\<close>

definition buildVectors :: "chunkInfo list \<Rightarrow> 'v list \<Rightarrow> 'v vectorRecord list" where
  "buildVectors allChunks embeddings =
     map (\<lambda>(i, chunkInfo).
            \<lparr>rec_id = ci_source chunkInfo @ lit ''-chunk-'' @ showNat (ci_chunkIndex chunkInfo),
             rec_values = (if i < length embeddings then Some (embeddings ! i) else None),
             rec_metadata =
               \<lparr>md_text = Some (ci_text chunkInfo), md_source = Some (ci_source chunkInfo)\<rparr>\<rparr>)
         (enumerate 0 allChunks)"

text \<open>
  \<open>main\<close>: what one run of the script does. \<open>docsExists\<close> and \<open>dirEntries\<close> are the
  state of the docs folder, \<open>embedMany\<close> and \<open>upsert\<close> the collaborators. \<open>None\<close> is
  a run in which \<open>chunkText\<close> never returns.
\<close>

datatype 'v ingestOutcome =
    NoDocsFolder
  | NoFiles
  | Failed error
  | Upserted jsstring "'v vectorRecord list"

definition ingest ::
  "bool \<Rightarrow> jsstring list \<Rightarrow> (jsstring \<Rightarrow> jsstring) \<Rightarrow> (jsstring list \<Rightarrow> error + 'v list)
     \<Rightarrow> (jsstring \<Rightarrow> 'v vectorRecord list \<Rightarrow> error + unit) \<Rightarrow> 'v ingestOutcome option" where
  "ingest docsExists dirEntries readFile embedMany upsert =
     (if \<not> docsExists then Some NoDocsFolder
      else
        (let files = filter isDocFile dirEntries
         in if length files = 0 then Some NoFiles
            else
              (case collectChunks readFile files of
                 None \<Rightarrow> None
               | Some allChunks \<Rightarrow>
                   (case embedMany (map ci_text allChunks) of
                      Inl e \<Rightarrow> Some (Failed e)
                    | Inr embeddings \<Rightarrow>
                        (case upsert NAMESPACE (buildVectors allChunks embeddings) of
                           Inl e \<Rightarrow> Some (Failed e)
                         | Inr _ \<Rightarrow> Some (Upserted NAMESPACE (buildVectors allChunks embeddings)))))))"

section \<open>Notions of the specification\<close>

text \<open>
  The words of the specification for the boundary adjustment, to compare with
  \<open>cutEnd\<close>. The lookahead window past a nominal end \<open>e\<close> holds the code units of
  the text at the positions \<open>e, \<dots>, e + 49\<close> that exist; a boundary is a line break
  or the sentence terminator; the nearest boundary is the position of the first
  one in the window.
\<close>

definition window :: "jsstring \<Rightarrow> int \<Rightarrow> jsstring" where
  "window text e = take (nat (e + 50) - nat e) (drop (nat e) text)"

definition isBoundary :: "16 word \<Rightarrow> bool" where
  "isBoundary u \<longleftrightarrow> u = newline \<or> u = period"

definition nearestBoundary :: "jsstring \<Rightarrow> int \<Rightarrow> int option" where
  "nearestBoundary text e =
     (if list_ex isBoundary (window text e)
      then Some (max e 0 + int (length (takeWhile (\<lambda>u. \<not> isBoundary u) (window text e))))
      else None)"

text \<open>
  The specification's rule read literally: when the window holds a boundary the
  chunk is cut at the nearest one (just before it or just after it), and at the
  nominal end otherwise.
\<close>

definition cutsAtNearestBoundary :: "jsstring \<Rightarrow> int \<Rightarrow> int \<Rightarrow> bool" where
  "cutsAtNearestBoundary text chunkSize start =
     (case nearestBoundary text (start + chunkSize) of
        Some i \<Rightarrow> cutEnd text chunkSize start = i \<or> cutEnd text chunkSize start = i + 1
      | None \<Rightarrow> cutEnd text chunkSize start = start + chunkSize)"

text \<open>
  A match as the ingestion pipeline stores it: its metadata holds the text, and
  holds the source or lacks it.
\<close>

definition storedMatch :: "jsstring option \<Rightarrow> jsstring \<Rightarrow> match" where
  "storedMatch src t = \<lparr>match_metadata = Some \<lparr>md_text = Some t, md_source = src\<rparr>\<rparr>"

text \<open>
  The labelled block of the specification: the label is the stored source, or
  \<open>unknown document\<close> when there is none (an empty source counts as none); a
  newline and the text follow.
\<close>

definition labelledBlock :: "jsstring option \<Rightarrow> jsstring \<Rightarrow> jsstring" where
  "labelledBlock src t =
     lit ''[source: ''
       @ (case src of None \<Rightarrow> lit ''unknown document''
          | Some s \<Rightarrow> if s = [] then lit ''unknown document'' else s)
       @ lit '']'' @ [newline] @ t"

text \<open>The transcript holds a tool-result payload.\<close>

definition hasToolResult :: "step list \<Rightarrow> bool" where
  "hasToolResult steps =
     list_ex (\<lambda>st. case content st of None \<Rightarrow> False
                   | Some ps \<Rightarrow> list_ex (\<lambda>p. p \<noteq> OtherPart) ps) steps"

text \<open>
  A model call yields nothing: no text, the empty text, or the placeholder
  \<open>undefined\<close>.
\<close>

definition yieldsNothing :: "jsstring option \<Rightarrow> bool" where
  "yieldsNothing v \<longleftrightarrow> v = None \<or> v = Some [] \<or> v = Some (lit ''undefined'')"

text \<open>
  Modelled from the spec: the vector index is a collaborator that is not part of
  the sources; by its contract (section 4.3) it holds one record per id, and
  \<open>upsert\<close> writes each record under its id, replacing the record that has it.
\<close>

definition upsertInto ::
  "(jsstring \<rightharpoonup> 'v vectorRecord) \<Rightarrow> 'v vectorRecord list \<Rightarrow> (jsstring \<rightharpoonup> 'v vectorRecord)" where
  "upsertInto store records = foldl (\<lambda>m r. m(rec_id r \<mapsto> r)) store records"

section \<open>Example inputs\<close>

text \<open>Texts and collaborators at which the theorems below are evaluated.\<close>

definition shortTailText :: jsstring where
  "shortTailText = lit ''0123456789abcdefghij''"

definition boundaryText :: jsstring where
  "boundaryText = lit ''abcdefg'' @ [period] @ lit ''hij'' @ [newline] @ lit ''klmnop''"

definition hugeSize :: int where
  "hugeSize = 9007199254740991"

definition hugeOverlap :: int where
  "hugeOverlap = 9007199254740990"

definition longSentenceText :: jsstring where
  "longSentenceText =
     lit ''The quick brown fox '' @ replicate 49 0x0078 @ [period]
       @ lit ''jumps over the lazy dog.''"

definition lengthEmbed :: "jsstring \<Rightarrow> error + nat" where
  "lengthEmbed q = Inr (length q)"

definition emptyIndex :: "jsstring \<Rightarrow> nat queryRequest \<Rightarrow> error + queryResponse" where
  "emptyIndex ns request = Inr \<lparr>matches = Some []\<rparr>"

definition bareIndex :: "jsstring \<Rightarrow> nat queryRequest \<Rightarrow> error + queryResponse" where
  "bareIndex ns request = Inr \<lparr>matches = None\<rparr>"

definition threeDocIndex :: "jsstring \<Rightarrow> nat queryRequest \<Rightarrow> error + queryResponse" where
  "threeDocIndex ns request =
     Inr \<lparr>matches = Some (take (topK request)
            [storedMatch (Some (lit ''auth.md'')) (lit ''Use JWT.''),
             storedMatch None (lit ''Deploy with Docker.''),
             storedMatch (Some (lit ''ui.md'')) (lit ''Use Next.js.'')])\<rparr>"

definition silentAgent :: "jsstring \<Rightarrow> (toolArgs \<Rightarrow> error + jsstring) \<Rightarrow> error + genResult" where
  "silentAgent p tool = Inr \<lparr>gen_text = None, gen_steps = []\<rparr>"

definition toolOnlyAgent :: "jsstring \<Rightarrow> (toolArgs \<Rightarrow> error + jsstring) \<Rightarrow> error + genResult" where
  "toolOnlyAgent p tool =
     (case tool \<lparr>query = None\<rparr> of
        Inl e \<Rightarrow> Inl e
      | Inr info \<Rightarrow>
          Inr \<lparr>gen_text = Some [],
               gen_steps = [\<lparr>content = Some [OtherPart, ToolResultPart None (Some info)]\<rparr>]\<rparr>)"

definition fixedSummary :: "jsstring \<Rightarrow> error + jsstring option" where
  "fixedSummary p = Inr (Some (lit ''JWT [auth.md]''))"

definition emptySummary :: "jsstring \<Rightarrow> error + jsstring option" where
  "emptySummary p = Inr (Some [])"

definition exampleDoc :: "jsstring \<Rightarrow> jsstring" where
  "exampleDoc file = lit ''Authentication uses JWT bearer tokens.''"

definition lengthEmbedMany :: "jsstring list \<Rightarrow> error + nat list" where
  "lengthEmbedMany texts = Inr (map length texts)"

definition doubleEmbedMany :: "jsstring list \<Rightarrow> error + nat list" where
  "doubleEmbedMany texts = Inr (map (\<lambda>t. 2 * length t) texts)"

definition acceptUpsert :: "jsstring \<Rightarrow> nat vectorRecord list \<Rightarrow> error + unit" where
  "acceptUpsert ns records = Inr ()"

definition authQuestion :: jsstring where
  "authQuestion = lit ''auth?''"

definition authContext :: jsstring where
  "authContext =
     lit ''[source: auth.md]'' @ [newline] @ lit ''Use JWT.''
       @ [newline, newline] @ lit ''---'' @ [newline, newline]
       @ lit ''[source: unknown document]'' @ [newline] @ lit ''Deploy with Docker.''"

definition authTranscript :: genResult where
  "authTranscript =
     \<lparr>gen_text = Some [],
      gen_steps = [\<lparr>content = Some [OtherPart, ToolResultPart None (Some authContext)]\<rparr>]\<rparr>"

definition authRequest :: request where
  "authRequest = \<lparr>reqBody = Some \<lparr>prompt = Some authQuestion\<rparr>\<rparr>"

definition docsFolder :: "jsstring list" where
  "docsFolder = [lit ''notes.md'', lit ''logo.png'']"

definition notesRecord :: "nat \<Rightarrow> nat vectorRecord" where
  "notesRecord e =
     \<lparr>rec_id = lit ''notes.md-chunk-0'', rec_values = Some e,
      rec_metadata = \<lparr>md_text = Some (lit ''Authentication uses JWT bearer tokens.''),
                      md_source = Some (lit ''notes.md'')\<rparr>\<rparr>"

section \<open>Numbers: where the arithmetic is exact\<close>

lemma ulp_small: "m < 2 ^ 53 \<Longrightarrow> ulp m = 1"
  by (simp add: ulp.simps)

lemma ulp_large: "2 ^ 53 \<le> m \<Longrightarrow> 2 \<le> ulp m \<and> 2 ^ 52 \<le> m div ulp m"
proof (induction m rule: ulp.induct)
  case (1 m)
  show ?case
  proof (cases "m div 2 < 2 ^ 53")
    case True
    then have u: "ulp m = 2" using "1.prems" by (simp add: ulp.simps [of m] ulp_small)
    have "(2::int) ^ 52 \<le> m div 2" using "1.prems" by simp
    with u show ?thesis by simp
  next
    case False
    then have ih: "2 \<le> ulp (m div 2) \<and> 2 ^ 52 \<le> (m div 2) div ulp (m div 2)"
      using "1.IH" "1.prems" by simp
    have u: "ulp m = 2 * ulp (m div 2)" using "1.prems" by (simp add: ulp.simps [of m])
    have "0 \<le> ulp (m div 2)" using ih by simp
    then have "m div ulp m = (m div 2) div ulp (m div 2)"
      unfolding u by (rule zdiv_zmult2_eq)
    with ih u show ?thesis by simp
  qed
qed

lemma roundMagnitude_small: "m < 2 ^ 53 \<Longrightarrow> roundMagnitude m = m"
  by (simp add: roundMagnitude_def ulp_small)

lemma roundMagnitude_pow53: "roundMagnitude (2 ^ 53) = 2 ^ 53"
proof -
  have "ulp (2 ^ 53) = 2" by (subst ulp.simps) (simp add: ulp_small)
  then show ?thesis by (simp add: roundMagnitude_def)
qed

lemma roundMagnitude_large:
  assumes "2 ^ 53 \<le> m"
  shows "2 ^ 53 \<le> roundMagnitude m"
proof -
  have q: "2 \<le> ulp m" "2 ^ 52 \<le> m div ulp m" using ulp_large [OF assms] by simp_all
  have "(2::int) ^ 52 * 2 \<le> (m div ulp m) * ulp m"
    using q by (intro mult_mono) simp_all
  then have lo: "2 ^ 53 \<le> (m div ulp m) * ulp m" by simp
  have u: "0 \<le> ulp m" using q by simp
  have up: "(m div ulp m + 1) * ulp m = (m div ulp m) * ulp m + ulp m"
    by (simp add: distrib_right)
  have "roundMagnitude m = (m div ulp m) * ulp m
          \<or> roundMagnitude m = (m div ulp m + 1) * ulp m"
    unfolding roundMagnitude_def Let_def by presburger
  with up u have "(m div ulp m) * ulp m \<le> roundMagnitude m" by linarith
  with lo show ?thesis by linarith
qed

lemma roundMagnitude_exact: "m \<le> 2 ^ 53 \<Longrightarrow> roundMagnitude m = m"
proof (cases "m < 2 ^ 53")
  case True
  then show ?thesis by (rule roundMagnitude_small)
next
  case False
  assume "m \<le> 2 ^ 53"
  with False have "m = 2 ^ 53" by linarith
  then show ?thesis by (simp only: roundMagnitude_pow53)
qed

lemma roundDouble_exact:
  assumes "\<bar>x\<bar> \<le> 2 ^ 53"
  shows "roundDouble x = x"
proof (cases "x < 0")
  case True
  with assms have "- x \<le> 2 ^ 53" by linarith
  then have "roundMagnitude (- x) = - x" by (rule roundMagnitude_exact)
  with True show ?thesis by (simp add: roundDouble_def)
next
  case False
  with assms have "x \<le> 2 ^ 53" by linarith
  then have "roundMagnitude x = x" by (rule roundMagnitude_exact)
  with False show ?thesis by (simp add: roundDouble_def)
qed

lemma roundDouble_large: "2 ^ 53 \<le> x \<Longrightarrow> 2 ^ 53 \<le> roundDouble x"
  using roundMagnitude_large [of x] by (simp add: roundDouble_def)

lemma roundDouble_small: "x \<le> - (2 ^ 53) \<Longrightarrow> roundDouble x \<le> - (2 ^ 53)"
  using roundMagnitude_large [of "- x"] by (simp add: roundDouble_def)

lemma roundDouble_less_50: "roundDouble x < 50 \<longleftrightarrow> x < 50"
proof -
  consider "\<bar>x\<bar> \<le> 2 ^ 53" | "2 ^ 53 \<le> x" | "x \<le> - (2 ^ 53)" by linarith
  then show ?thesis
  proof cases
    case 1
    then show ?thesis by (simp add: roundDouble_exact)
  next
    case 2
    with roundDouble_large [OF 2] show ?thesis by simp
  next
    case 3
    with roundDouble_small [OF 3] show ?thesis by simp
  qed
qed

lemma ulp_pos: "0 < ulp m"
proof (cases "m < 2 ^ 53")
  case True
  then show ?thesis by (simp add: ulp_small)
next
  case False
  then have "2 \<le> ulp m" using ulp_large [of m] by simp
  then show ?thesis by simp
qed

lemma roundDouble_nonneg:
  assumes "0 \<le> x"
  shows "0 \<le> roundDouble x"
proof -
  have u: "0 < ulp x" by (rule ulp_pos)
  then have q: "0 \<le> x div ulp x" using assms by (simp add: pos_imp_zdiv_nonneg_iff)
  have "roundMagnitude x = (x div ulp x) * ulp x
          \<or> roundMagnitude x = (x div ulp x + 1) * ulp x"
    unfolding roundMagnitude_def Let_def by presburger
  moreover have "0 \<le> (x div ulp x) * ulp x" using u q by simp
  moreover have "0 \<le> (x div ulp x + 1) * ulp x" using u q by simp
  ultimately have "0 \<le> roundMagnitude x" by presburger
  with assms show ?thesis by (simp add: roundDouble_def)
qed

lemma jsAdd_exact: "\<bar>a + b\<bar> \<le> 2 ^ 53 \<Longrightarrow> jsAdd a b = a + b"
  by (simp add: jsAdd_def roundDouble_exact)

lemma jsSub_exact: "\<bar>a - b\<bar> \<le> 2 ^ 53 \<Longrightarrow> jsSub a b = a - b"
  by (simp add: jsSub_def roundDouble_exact)

lemma jsSub_less_50: "jsSub a b < 50 \<longleftrightarrow> a - b < 50"
  by (simp add: jsSub_def roundDouble_less_50)

section \<open>Strings: scanning, slicing, trimming\<close>

lemma scanFrom_takeWhile:
  "scanFrom ch xs k =
     (if ch \<in> set xs then k + int (length (takeWhile (\<lambda>u. u \<noteq> ch) xs)) else -1)"
  by (induction xs arbitrary: k) auto

lemma indexOf_ge:
  assumes "indexOf text ch pos \<noteq> -1"
  shows "pos \<le> indexOf text ch pos"
proof (cases "pos \<le> int (length text)")
  case True
  with assms show ?thesis
    by (auto simp: indexOf_def Let_def scanFrom_takeWhile split: if_splits)
next
  case False
  then have "indexOf text ch pos = -1"
    by (simp add: indexOf_def Let_def)
  with assms show ?thesis by simp
qed

lemma scanFrom_lt:
  "scanFrom ch xs k \<noteq> -1 \<Longrightarrow> 0 \<le> k \<Longrightarrow> scanFrom ch xs k < k + int (length xs)"
proof (induction xs arbitrary: k)
  case Nil
  then show ?case by simp
next
  case (Cons x xs)
  show ?case
  proof (cases "x = ch")
    case True
    then show ?thesis by simp
  next
    case False
    with Cons.prems have "scanFrom ch xs (k + 1) \<noteq> -1" "0 \<le> k + 1" by simp_all
    then have "scanFrom ch xs (k + 1) < k + 1 + int (length xs)" by (rule Cons.IH)
    with False show ?thesis by simp
  qed
qed

lemma indexOf_lt:
  assumes "indexOf text ch pos \<noteq> -1"
  shows "indexOf text ch pos < int (length text)"
proof -
  define k where "k = min (max pos 0) (int (length text))"
  have k0: "0 \<le> k" "k \<le> int (length text)" by (simp_all add: k_def)
  have i: "indexOf text ch pos = scanFrom ch (drop (nat k) text) k"
    by (simp add: indexOf_def Let_def k_def)
  with assms have "scanFrom ch (drop (nat k) text) k \<noteq> -1" by simp
  then have "scanFrom ch (drop (nat k) text) k < k + int (length (drop (nat k) text))"
    using k0(1) by (rule scanFrom_lt)
  also have "\<dots> = int (length text)" using k0 by simp
  finally show ?thesis using i by simp
qed

lemma length_trim: "length (trim s) \<le> length s"
proof -
  have "length (dropWhile isWhiteSpace (rev (dropWhile isWhiteSpace s)))
          \<le> length (rev (dropWhile isWhiteSpace s))"
    by (rule length_dropWhile_le)
  then have "length (trim s) \<le> length (dropWhile isWhiteSpace s)"
    by (simp add: trim_def)
  also have "\<dots> \<le> length s" by (rule length_dropWhile_le)
  finally show ?thesis .
qed

lemma length_slice_js:
  "0 \<le> start \<Longrightarrow> 0 \<le> finish \<Longrightarrow> int (length (slice_js text start finish)) \<le> max 0 (finish - start)"
  by (auto simp: slice_js_def Let_def min_def max_def)

lemma length_take_drop_le: "length (take n (drop k xs)) \<le> length xs"
  by simp

lemma length_slice_js_le: "length (slice_js text start finish) \<le> length text"
  unfolding slice_js_def Let_def by (rule length_take_drop_le)

lemma length_slice_js_rest:
  "0 \<le> start \<Longrightarrow> int (length (slice_js text start finish)) \<le> max 0 (int (length text) - start)"
  by (auto simp: slice_js_def Let_def min_def max_def)

lemma in_set_take_iff:
  "ch \<in> set (take n xs) \<longleftrightarrow> ch \<in> set xs \<and> length (takeWhile (\<lambda>u. u \<noteq> ch) xs) < n"
proof (induction xs arbitrary: n)
  case Nil
  then show ?case by simp
next
  case (Cons x xs)
  then show ?case by (cases n) auto
qed

lemma takeWhile_take_same:
  "ch \<in> set (take n xs) \<Longrightarrow>
   takeWhile (\<lambda>u. u \<noteq> ch) (take n xs) = takeWhile (\<lambda>u. u \<noteq> ch) xs"
proof (induction xs arbitrary: n)
  case Nil
  then show ?case by simp
next
  case (Cons x xs)
  then show ?case by (cases n) auto
qed

section \<open>The chunker: progress and termination\<close>

lemma cutEnd_lower: "jsAdd start chunkSize \<le> cutEnd text chunkSize start"
proof -
  let ?e = "jsAdd start chunkSize"
  have n: "indexOf text newline ?e \<noteq> -1 \<Longrightarrow> ?e \<le> indexOf text newline ?e"
    by (rule indexOf_ge)
  have p: "indexOf text period ?e \<noteq> -1 \<Longrightarrow> ?e \<le> indexOf text period ?e"
    by (rule indexOf_ge)
  show ?thesis
    using n p by (auto simp: cutEnd_def Let_def)
qed

lemma cutEnd_upper: "cutEnd text chunkSize start \<le> jsAdd start chunkSize + 50"
  by (auto simp: cutEnd_def Let_def jsSub_less_50)

lemma cutEnd_le_max:
  "cutEnd text chunkSize start \<le> max (jsAdd start chunkSize) (int (length text))"
proof -
  let ?e = "jsAdd start chunkSize"
  have n: "indexOf text newline ?e \<noteq> -1 \<Longrightarrow> indexOf text newline ?e < int (length text)"
    by (rule indexOf_lt)
  have p: "indexOf text period ?e \<noteq> -1 \<Longrightarrow> indexOf text period ?e < int (length text)"
    by (rule indexOf_lt)
  show ?thesis
    using n p by (auto simp: cutEnd_def Let_def)
qed

text \<open>
  While the length of the text and the chunk size add up to at most \<open>2 ^ 53\<close>, every
  sum and difference of an iteration is exact, and the iteration moves
  \<open>startIndex\<close> forward.
\<close>

lemma chunkStep_exact:
  assumes "0 \<le> overlap" "overlap < chunkSize"
    and "int (length text) + chunkSize \<le> 2 ^ 53"
    and "0 \<le> startIndex st" "startIndex st < int (length text)"
  shows "startIndex st < startIndex (chunkStep text chunkSize overlap st)"
    and "cutEnd text chunkSize (startIndex st) \<le> startIndex st + chunkSize + 50"
    and "0 \<le> cutEnd text chunkSize (startIndex st)"
proof -
  let ?s = "startIndex st"
  let ?e = "cutEnd text chunkSize ?s"
  let ?c = "trim (slice_js text ?s ?e)"
  have "\<bar>?s + chunkSize\<bar> \<le> 2 ^ 53" using assms by linarith
  then have e0: "jsAdd ?s chunkSize = ?s + chunkSize" by (rule jsAdd_exact)
  have "jsAdd ?s chunkSize \<le> ?e" by (rule cutEnd_lower)
  then have lo: "?s + chunkSize \<le> ?e" using e0 by simp
  have "?e \<le> jsAdd ?s chunkSize + 50" by (rule cutEnd_upper)
  then show up: "?e \<le> ?s + chunkSize + 50" using e0 by simp
  show nonneg: "0 \<le> ?e" using lo assms by linarith
  have "?e \<le> max (jsAdd ?s chunkSize) (int (length text))" by (rule cutEnd_le_max)
  then have hi: "?e \<le> 2 ^ 53"
    using e0 assms by linarith
  have "\<bar>?e - overlap\<bar> \<le> 2 ^ 53" using lo hi assms by linarith
  then have d: "jsSub ?e overlap = ?e - overlap" by (rule jsSub_exact)
  have "\<bar>(?e - overlap) + overlap\<bar> \<le> 2 ^ 53" using nonneg hi by simp
  then have undo: "jsAdd (?e - overlap) overlap = ?e"
    using jsAdd_exact [of "?e - overlap" overlap] by simp
  have "nextStart chunkSize overlap ?e ?c = ?e - overlap \<or> nextStart chunkSize overlap ?e ?c = ?e"
    by (simp add: nextStart_def Let_def d undo)
  moreover have "startIndex (chunkStep text chunkSize overlap st) = nextStart chunkSize overlap ?e ?c"
    by (simp add: chunkStep_def Let_def)
  ultimately show "?s < startIndex (chunkStep text chunkSize overlap st)"
    using lo assms(1,2) by linarith
qed

text \<open>
  The loop rule for termination: when the body keeps an invariant and moves
  \<open>startIndex\<close> forward under it, the loop returns, in a state that has the
  invariant.
\<close>

lemma chunkLoop_invariant:
  assumes step: "\<And>s. I s \<Longrightarrow> startIndex s < int (length text)
                 \<Longrightarrow> I (chunkStep text chunkSize overlap s)
                     \<and> startIndex s < startIndex (chunkStep text chunkSize overlap s)"
    and init: "I st"
  shows "\<exists>st'. chunkLoop text chunkSize overlap st = Some st' \<and> I st'"
  using init
proof (induction "nat (int (length text) - startIndex st)" arbitrary: st rule: less_induct)
  case less
  show ?case
  proof (cases "startIndex st < int (length text)")
    case False
    then show ?thesis using less.prems by (subst chunkLoop.simps) simp
  next
    case True
    let ?s = "chunkStep text chunkSize overlap st"
    have s: "I ?s" "startIndex st < startIndex ?s"
      using step [OF less.prems True] by simp_all
    with True have "nat (int (length text) - startIndex ?s) < nat (int (length text) - startIndex st)"
      by linarith
    then obtain st' where "chunkLoop text chunkSize overlap ?s = Some st'" "I st'"
      using less.hyps s(1) by blast
    then show ?thesis using True by (subst chunkLoop.simps) simp
  qed
qed

text \<open>
  The loop rule for what is returned: a property that the body keeps holds of the
  state that the loop returns, when it returns.
\<close>

lemma chunkLoop_partial:
  assumes run: "chunkLoop text chunkSize overlap st = Some st'"
    and init: "I st"
    and step: "\<And>s. I s \<Longrightarrow> startIndex s < int (length text)
                 \<Longrightarrow> I (chunkStep text chunkSize overlap s)"
  shows "I st'"
proof -
  have "(text = text \<and> chunkSize = chunkSize \<and> overlap = overlap) \<longrightarrow> I st \<longrightarrow> I st'"
  proof (rule chunkLoop.raw_induct
      [where P = "\<lambda>t c ov s y. (t = text \<and> c = chunkSize \<and> ov = overlap) \<longrightarrow> I s \<longrightarrow> I y",
       OF _ run])
    fix f t c ov s y
    assume ih: "\<And>t c ov s y. f t c ov s = Some y
                  \<Longrightarrow> (t = text \<and> c = chunkSize \<and> ov = overlap) \<longrightarrow> I s \<longrightarrow> I y"
      and body: "(if startIndex s < int (length t) then f t c ov (chunkStep t c ov s)
                  else Some s) = Some y"
    show "(t = text \<and> c = chunkSize \<and> ov = overlap) \<longrightarrow> I s \<longrightarrow> I y"
    proof (intro impI)
      assume eq: "t = text \<and> c = chunkSize \<and> ov = overlap" and inv: "I s"
      show "I y"
      proof (cases "startIndex s < int (length t)")
        case True
        then have call: "f t c ov (chunkStep t c ov s) = Some y" using body by simp
        have "I (chunkStep t c ov s)" using step [OF inv] True eq by simp
        then show ?thesis using ih [OF call] eq by simp
      next
        case False
        then show ?thesis using body inv by simp
      qed
    qed
  qed
  then show ?thesis using init by simp
qed

lemma starts_invariant_step:
  assumes "0 \<le> overlap" "overlap < chunkSize"
    and "int (length text) + chunkSize \<le> 2 ^ 53"
    and "startIndex s < int (length text)"
    and "0 \<le> startIndex s \<and> sorted_wrt (<) (cutStarts s)
         \<and> (\<forall>x\<in>set (cutStarts s). x < startIndex s)
         \<and> length (cutStarts s) = length (chunks s)"
  shows "(0 \<le> startIndex (chunkStep text chunkSize overlap s)
          \<and> sorted_wrt (<) (cutStarts (chunkStep text chunkSize overlap s))
          \<and> (\<forall>x\<in>set (cutStarts (chunkStep text chunkSize overlap s)).
                x < startIndex (chunkStep text chunkSize overlap s))
          \<and> length (cutStarts (chunkStep text chunkSize overlap s))
              = length (chunks (chunkStep text chunkSize overlap s)))
         \<and> startIndex s < startIndex (chunkStep text chunkSize overlap s)"
proof -
  have p: "startIndex s < startIndex (chunkStep text chunkSize overlap s)"
    using chunkStep_exact(1) [OF assms(1,2,3) _ assms(4)] assms(5) by blast
  have c: "cutStarts (chunkStep text chunkSize overlap s) = cutStarts s @ [startIndex s]"
    by (simp add: chunkStep_def Let_def)
  have l: "length (chunks (chunkStep text chunkSize overlap s)) = Suc (length (chunks s))"
    by (simp add: chunkStep_def Let_def)
  show ?thesis
    unfolding c l using assms(5) p by (auto simp: sorted_wrt_append)
qed

text \<open>
  C1, within the range of exact arithmetic. For every text and every chunk size
  and overlap with \<open>0 \<le> overlap < chunkSize\<close> and
  \<open>length text + chunkSize \<le> 2 ^ 53\<close>, \<open>chunkText\<close> returns, and the start offsets at
  which its successive chunks were cut (one per pushed chunk) are strictly
  increasing.
\<close>

theorem chunkText_terminates_starts_increasing:
  assumes "0 \<le> overlap" and "overlap < chunkSize"
    and "int (length text) + chunkSize \<le> 2 ^ 53"
  shows "\<exists>st. chunkLoop text chunkSize overlap chunkInit = Some st
           \<and> chunkText text chunkSize overlap
               = Some (filter (\<lambda>chunk. MIN_CHUNK_LENGTH < length chunk) (chunks st))
           \<and> chunkStarts text chunkSize overlap = Some (cutStarts st)
           \<and> length (cutStarts st) = length (chunks st)
           \<and> sorted_wrt (<) (cutStarts st)"
proof -
  let ?I = "\<lambda>s. 0 \<le> startIndex s \<and> sorted_wrt (<) (cutStarts s)
               \<and> (\<forall>x\<in>set (cutStarts s). x < startIndex s)
               \<and> length (cutStarts s) = length (chunks s)"
  have "?I chunkInit" by (simp add: chunkInit_def)
  moreover have "\<And>s. ?I s \<Longrightarrow> startIndex s < int (length text)
                   \<Longrightarrow> ?I (chunkStep text chunkSize overlap s)
                       \<and> startIndex s < startIndex (chunkStep text chunkSize overlap s)"
    by (rule starts_invariant_step [OF assms])
  ultimately obtain st where "chunkLoop text chunkSize overlap chunkInit = Some st" "?I st"
    using chunkLoop_invariant [where I = ?I and st = chunkInit] by blast
  then show ?thesis by (simp add: chunkText_def chunkStarts_def)
qed

theorem chunkText_terminates_starts_increasing_witness:
  "(0::int) \<le> 2 \<and> (2::int) < 5 \<and> int (length boundaryText) + 5 \<le> 2 ^ 53
   \<and> chunkStarts boundaryText 5 2 = Some [0, 9, 12, 15]
   \<and> (\<exists>st. chunkLoop boundaryText 5 2 chunkInit = Some st
         \<and> chunkStarts boundaryText 5 2 = Some (cutStarts st)
         \<and> length (cutStarts st) = length (chunks st)
         \<and> sorted_wrt (<) (cutStarts st))"
proof -
  have s: "chunkStarts boundaryText 5 2 = Some [0, 9, 12, 15]"
    by code_simp
  have l: "int (length boundaryText) + 5 \<le> 2 ^ 53"
    by (simp add: boundaryText_def lit_def)
  show ?thesis
    using s l chunkText_terminates_starts_increasing [of 2 5 boundaryText] by auto
qed

text \<open>
  Beyond that range the loop can stall. With the chunk size \<open>2 ^ 53 - 1\<close> and the
  overlap \<open>2 ^ 53 - 2\<close> on the text \<open>abcd\<close>, the sum \<open>2 + chunkSize\<close> rounds to
  \<open>2 ^ 53\<close>, so that the next start is 2 again.
\<close>

lemma stalled_step:
  assumes "startIndex st = 2"
  shows "startIndex (chunkStep (lit ''abcd'') hugeSize hugeOverlap st) = 2"
proof -
  have e: "cutEnd (lit ''abcd'') hugeSize 2 = 9007199254740992"
    by code_simp
  have c: "trim (slice_js (lit ''abcd'') 2 9007199254740992) = lit ''cd''"
    by code_simp
  have n: "nextStart hugeSize hugeOverlap 9007199254740992 (lit ''cd'') = 2"
    by code_simp
  show ?thesis
    using assms by (simp add: chunkStep_def Let_def e c n)
qed

lemma stalled_loop:
  assumes "startIndex st = 2"
  shows "chunkLoop (lit ''abcd'') hugeSize hugeOverlap st = None"
proof (rule ccontr)
  assume "chunkLoop (lit ''abcd'') hugeSize hugeOverlap st \<noteq> None"
  then obtain z where run: "chunkLoop (lit ''abcd'') hugeSize hugeOverlap st = Some z"
    by blast
  have "\<not> (lit ''abcd'' = lit ''abcd'' \<and> hugeSize = hugeSize \<and> hugeOverlap = hugeOverlap
           \<and> startIndex st = 2)"
  proof (rule chunkLoop.raw_induct
      [where P = "\<lambda>t c ov s y. \<not> (t = lit ''abcd'' \<and> c = hugeSize \<and> ov = hugeOverlap
                                   \<and> startIndex s = 2)",
       OF _ run])
    fix f t c ov s y
    assume ih: "\<And>t c ov s y. f t c ov s = Some y
                  \<Longrightarrow> \<not> (t = lit ''abcd'' \<and> c = hugeSize \<and> ov = hugeOverlap \<and> startIndex s = 2)"
      and body: "(if startIndex s < int (length t) then f t c ov (chunkStep t c ov s)
                  else Some s) = Some y"
    show "\<not> (t = lit ''abcd'' \<and> c = hugeSize \<and> ov = hugeOverlap \<and> startIndex s = 2)"
    proof
      assume a: "t = lit ''abcd'' \<and> c = hugeSize \<and> ov = hugeOverlap \<and> startIndex s = 2"
      then have "startIndex s < int (length t)" by (simp add: lit_def)
      then have call: "f t c ov (chunkStep t c ov s) = Some y" using body by simp
      have "startIndex (chunkStep t c ov s) = 2"
        using a stalled_step by simp
      then show False using ih [OF call] a by simp
    qed
  qed
  with assms show False by simp
qed

text \<open>
  C1, as the specification words it, fails: the overlap \<open>2 ^ 53 - 2\<close> is below the
  chunk size \<open>2 ^ 53 - 1\<close>, and \<open>chunkText\<close> never returns on the text \<open>abcd\<close>.
\<close>

theorem chunkText_stalls_counterexample:
  "(0::int) \<le> hugeOverlap \<and> hugeOverlap < hugeSize
   \<and> chunkText (lit ''abcd'') hugeSize hugeOverlap = None"
proof -
  let ?s1 = "chunkStep (lit ''abcd'') hugeSize hugeOverlap chunkInit"
  let ?s2 = "chunkStep (lit ''abcd'') hugeSize hugeOverlap ?s1"
  have s0: "startIndex chunkInit < int (length (lit ''abcd''))"
    by (simp add: chunkInit_def lit_def)
  have s1: "startIndex ?s1 = 1" by code_simp
  have s2: "startIndex ?s2 = 2" by code_simp
  have "chunkLoop (lit ''abcd'') hugeSize hugeOverlap chunkInit
          = chunkLoop (lit ''abcd'') hugeSize hugeOverlap ?s1"
    using s0 by (subst chunkLoop.simps) simp
  also have "\<dots> = chunkLoop (lit ''abcd'') hugeSize hugeOverlap ?s2"
    using s1 by (subst chunkLoop.simps) (simp add: lit_def)
  also have "\<dots> = None" using s2 by (rule stalled_loop)
  finally show ?thesis
    by (simp add: chunkText_def hugeSize_def hugeOverlap_def)
qed

section \<open>The chunker: what it returns\<close>

lemma cutEnd_outside:
  "int (length text) \<le> jsAdd start chunkSize \<Longrightarrow> cutEnd text chunkSize start = jsAdd start chunkSize"
  by (simp add: cutEnd_def Let_def)

text \<open>
  One iteration on a text of at most \<open>2 ^ 53 - 1\<close> code units that is longer than the
  chunk size. Either the nominal end is exact, and the cut is at most 50 past it;
  or it is rounded, and then it is past the end of the text, where nothing is
  looked for and the chunk is the rest of the text, shorter than the chunk size.
\<close>

lemma bound_invariant_step:
  assumes "0 \<le> overlap" "overlap < chunkSize"
    and "chunkSize < int (length text)" "int (length text) < 2 ^ 53"
    and "startIndex s < int (length text)"
    and "0 \<le> startIndex s \<and> (\<forall>c\<in>set (chunks s). int (length c) \<le> chunkSize + 50)"
  shows "0 \<le> startIndex (chunkStep text chunkSize overlap s)
         \<and> (\<forall>c\<in>set (chunks (chunkStep text chunkSize overlap s)).
               int (length c) \<le> chunkSize + 50)"
proof -
  let ?s = "startIndex s"
  let ?nominal = "jsAdd ?s chunkSize"
  let ?e = "cutEnd text chunkSize ?s"
  let ?chunk = "trim (slice_js text ?s ?e)"
  have s0: "0 \<le> ?s" using assms(6) by simp
  have lo: "?nominal \<le> ?e" by (rule cutEnd_lower)
  have trimmed: "length ?chunk \<le> length (slice_js text ?s ?e)" by (rule length_trim)
  have both: "chunkSize \<le> ?nominal \<and> int (length ?chunk) \<le> chunkSize + 50"
  proof (cases "?s + chunkSize \<le> 2 ^ 53")
    case True
    then have "\<bar>?s + chunkSize\<bar> \<le> 2 ^ 53" using s0 assms(1,2) by linarith
    then have e0: "?nominal = ?s + chunkSize" by (rule jsAdd_exact)
    have "?e \<le> ?nominal + 50" by (rule cutEnd_upper)
    then have up: "?e \<le> ?s + chunkSize + 50" using e0 by simp
    have "0 \<le> ?e" using lo e0 s0 assms(1,2) by linarith
    then have "int (length (slice_js text ?s ?e)) \<le> max 0 (?e - ?s)"
      using s0 by (simp add: length_slice_js)
    with trimmed up have "int (length ?chunk) \<le> chunkSize + 50"
      using assms(1,2) by linarith
    with e0 s0 show ?thesis by simp
  next
    case False
    then have "2 ^ 53 \<le> ?s + chunkSize" by simp
    then have big: "2 ^ 53 \<le> ?nominal" unfolding jsAdd_def by (rule roundDouble_large)
    have "int (length (slice_js text ?s ?e)) \<le> max 0 (int (length text) - ?s)"
      using s0 by (rule length_slice_js_rest)
    with trimmed False have "int (length ?chunk) \<le> chunkSize + 50"
      using assms(1,2,4) by linarith
    with big show ?thesis using assms(3,4) by linarith
  qed
  have "0 \<le> ?e - overlap" using both lo assms(1,2) by linarith
  then have d: "0 \<le> jsSub ?e overlap" unfolding jsSub_def by (rule roundDouble_nonneg)
  then have "0 \<le> jsSub ?e overlap + overlap" using assms(1) by simp
  then have a: "0 \<le> jsAdd (jsSub ?e overlap) overlap"
    unfolding jsAdd_def by (rule roundDouble_nonneg)
  have n: "0 \<le> nextStart chunkSize overlap ?e ?chunk"
    using d a by (simp add: nextStart_def Let_def)
  have st: "startIndex (chunkStep text chunkSize overlap s) = nextStart chunkSize overlap ?e ?chunk"
    by (simp add: chunkStep_def Let_def)
  have c: "chunks (chunkStep text chunkSize overlap s) = chunks s @ [?chunk]"
    by (simp add: chunkStep_def Let_def)
  show ?thesis
    unfolding c st using assms(6) n both by auto
qed

lemma whole_invariant_step:
  assumes "\<forall>c\<in>set (chunks s). length c \<le> length text"
  shows "\<forall>c\<in>set (chunks (chunkStep text chunkSize overlap s)). length c \<le> length text"
proof -
  let ?chunk = "trim (slice_js text (startIndex s) (cutEnd text chunkSize (startIndex s)))"
  have "length ?chunk \<le> length (slice_js text (startIndex s) (cutEnd text chunkSize (startIndex s)))"
    by (rule length_trim)
  then have "length ?chunk \<le> length text"
    using length_slice_js_le order_trans by blast
  moreover have "chunks (chunkStep text chunkSize overlap s) = chunks s @ [?chunk]"
    by (simp add: chunkStep_def Let_def)
  ultimately show ?thesis using assms by auto
qed

text \<open>
  C10. For every text (a JavaScript string, which has at most \<open>2 ^ 53 - 1\<close> code
  units) and every chunk size and overlap with \<open>0 \<le> overlap < chunkSize\<close>, every
  chunk that \<open>chunkText\<close> returns has at most \<open>chunkSize + 50\<close> code units.
\<close>

theorem chunkText_length_bound:
  assumes "0 \<le> overlap" and "overlap < chunkSize"
    and "int (length text) < 2 ^ 53"
    and "chunkText text chunkSize overlap = Some result"
  shows "\<forall>chunk\<in>set result. int (length chunk) \<le> chunkSize + 50"
proof -
  obtain st where run: "chunkLoop text chunkSize overlap chunkInit = Some st"
    and res: "result = filter (\<lambda>chunk. MIN_CHUNK_LENGTH < length chunk) (chunks st)"
    using assms(4) by (auto simp: chunkText_def)
  have "\<forall>c\<in>set (chunks st). int (length c) \<le> chunkSize + 50"
  proof (cases "int (length text) \<le> chunkSize")
    case True
    have "\<forall>c\<in>set (chunks st). length c \<le> length text"
      by (rule chunkLoop_partial [OF run, where I = "\<lambda>s. \<forall>c\<in>set (chunks s). length c \<le> length text"])
         (simp_all add: chunkInit_def whole_invariant_step)
    with True show ?thesis by fastforce
  next
    case False
    then have longer: "chunkSize < int (length text)" by simp
    have "0 \<le> startIndex st \<and> (\<forall>c\<in>set (chunks st). int (length c) \<le> chunkSize + 50)"
      by (rule chunkLoop_partial [OF run, where
            I = "\<lambda>s. 0 \<le> startIndex s \<and> (\<forall>c\<in>set (chunks s). int (length c) \<le> chunkSize + 50)"])
         (simp add: chunkInit_def, rule bound_invariant_step [OF assms(1,2) longer assms(3)])
    then show ?thesis by simp
  qed
  with res show ?thesis by simp
qed

theorem chunkText_length_bound_witness:
  "(0::int) \<le> 5 \<and> (5::int) < 20 \<and> int (length longSentenceText) < 2 ^ 53
   \<and> map_option (map length) (chunkText longSentenceText 20 5) = Some [70, 19, 13]
   \<and> (\<exists>result. chunkText longSentenceText 20 5 = Some result
         \<and> list_all (\<lambda>chunk. int (length chunk) \<le> 20 + 50) result)"
proof -
  have m: "map_option (map length) (chunkText longSentenceText 20 5) = Some [70, 19, 13]"
    by code_simp
  then obtain result where r: "chunkText longSentenceText 20 5 = Some result"
    by blast
  have l: "int (length longSentenceText) < 2 ^ 53"
    by (simp add: longSentenceText_def lit_def)
  have "list_all (\<lambda>chunk. int (length chunk) \<le> 20 + 50) result"
    using chunkText_length_bound [OF _ _ l r] by (simp add: list_all_iff)
  with m l r show ?thesis by simp
qed

text \<open>
  C6. For every text, chunk size and overlap, every chunk that \<open>chunkText\<close> returns
  has more than 10 code units.
\<close>

theorem chunkText_min_length:
  assumes "chunkText text chunkSize overlap = Some result"
  shows "\<forall>chunk\<in>set result. 10 < length chunk"
  using assms by (auto simp: chunkText_def MIN_CHUNK_LENGTH_def)

theorem chunkText_min_length_witness:
  "chunkText shortTailText 15 3 = Some [lit ''0123456789abcde'']
   \<and> map_option chunks (chunkLoop shortTailText 15 3 chunkInit)
       = Some [lit ''0123456789abcde'', lit ''cdefghij'']
   \<and> 10 < length (lit ''0123456789abcde'')"
proof -
  have r: "chunkText shortTailText 15 3 = Some [lit ''0123456789abcde'']"
    by code_simp
  have l: "map_option chunks (chunkLoop shortTailText 15 3 chunkInit)
             = Some [lit ''0123456789abcde'', lit ''cdefghij'']"
    by code_simp
  show ?thesis
    using r l chunkText_min_length [OF r] by simp
qed

section \<open>The chunker: the boundary adjustment\<close>

lemma indexOf_inside:
  assumes "e < int (length text)"
  shows "indexOf text ch e =
     (if ch \<in> set (drop (nat e) text)
      then max e 0 + int (length (takeWhile (\<lambda>u. u \<noteq> ch) (drop (nat e) text)))
      else -1)"
proof -
  have "min (max e 0) (int (length text)) = max e 0" using assms by simp
  moreover have "nat (max e 0) = nat e" by simp
  ultimately show ?thesis
    by (simp add: indexOf_def Let_def scanFrom_takeWhile
          del: max.absorb1 max.absorb2 max.absorb3 max.absorb4)
qed

lemma indexOf_window:
  assumes "e < int (length text)"
  shows "(indexOf text ch e \<noteq> -1 \<and> jsSub (indexOf text ch e) e < 50)
           \<longleftrightarrow> ch \<in> set (window text e)"
    and "ch \<in> set (window text e) \<Longrightarrow>
         indexOf text ch e = max e 0 + int (length (takeWhile (\<lambda>u. u \<noteq> ch) (window text e)))"
proof -
  let ?xs = "drop (nat e) text"
  let ?L = "length (takeWhile (\<lambda>u. u \<noteq> ch) ?xs)"
  have w: "ch \<in> set (window text e) \<longleftrightarrow> ch \<in> set ?xs \<and> ?L < nat (e + 50) - nat e"
    unfolding window_def by (rule in_set_take_iff)
  have d: "max e 0 + int ?L - e < 50 \<longleftrightarrow> ?L < nat (e + 50) - nat e"
    by linarith
  show "(indexOf text ch e \<noteq> -1 \<and> jsSub (indexOf text ch e) e < 50)
          \<longleftrightarrow> ch \<in> set (window text e)"
    using w d by (auto simp: indexOf_inside [OF assms] jsSub_less_50)
  show "indexOf text ch e = max e 0 + int (length (takeWhile (\<lambda>u. u \<noteq> ch) (window text e)))"
    if "ch \<in> set (window text e)"
  proof -
    have "takeWhile (\<lambda>u. u \<noteq> ch) (window text e) = takeWhile (\<lambda>u. u \<noteq> ch) ?xs"
      using that unfolding window_def by (rule takeWhile_take_same)
    moreover have "ch \<in> set ?xs" using that w by simp
    ultimately show ?thesis by (simp add: indexOf_inside [OF assms])
  qed
qed

lemma window_outside: "int (length text) \<le> e \<Longrightarrow> window text e = []"
  by (simp add: window_def)

lemma cutEnd_inside:
  assumes "jsAdd start chunkSize < int (length text)"
  shows "cutEnd text chunkSize start =
     (if newline \<in> set (window text (jsAdd start chunkSize))
      then indexOf text newline (jsAdd start chunkSize)
      else if period \<in> set (window text (jsAdd start chunkSize))
      then indexOf text period (jsAdd start chunkSize) + 1
      else jsAdd start chunkSize)"
  using assms by (simp add: cutEnd_def Let_def indexOf_window(1) [OF assms])

text \<open>
  C4, as the code has it. Let \<open>e\<close> be the nominal end, the sum of the start and the
  chunk size as the numbers of the code give it (the sum itself up to \<open>2 ^ 53\<close>),
  and \<open>w\<close> the window of the code units at the positions \<open>e, \<dots>, e + 49\<close>. If \<open>w\<close>
  holds a line break, the chunk is cut just before the first line break of \<open>w\<close>,
  wherever the sentence terminators are; otherwise, if \<open>w\<close> holds the ideographic
  full stop U+3002 (the one sentence terminator that is searched for), the chunk
  is cut just after the first one; otherwise it is cut at \<open>e\<close>.
\<close>

theorem cutEnd_window:
  "cutEnd text chunkSize start =
     (let e = jsAdd start chunkSize; w = window text e
      in if newline \<in> set w then max e 0 + int (length (takeWhile (\<lambda>u. u \<noteq> newline) w))
         else if period \<in> set w
         then max e 0 + int (length (takeWhile (\<lambda>u. u \<noteq> period) w)) + 1
         else e)"
proof (cases "jsAdd start chunkSize < int (length text)")
  case False
  then have "window text (jsAdd start chunkSize) = []" by (simp add: window_outside)
  with False show ?thesis by (simp add: cutEnd_def Let_def)
next
  case True
  show ?thesis
    unfolding cutEnd_inside [OF True] Let_def
    by (simp add: indexOf_window(2) [OF True])
qed

theorem cutEnd_window_witness:
  "cutEnd (lit ''abcdefg'' @ [period] @ lit ''hijklmnop'') 5 0 = 8
   \<and> cutEnd (lit ''abcdefg'' @ [newline] @ lit ''hijklmnop'') 5 0 = 7
   \<and> cutEnd (lit ''abcdefghijklmnopqr'') 5 0 = 5"
  unfolding cutEnd_window
  by (simp add: window_def lit_def newline_def period_def jsAdd_exact)

text \<open>
  C4, as the specification words it, fails: in \<open>boundaryText\<close> the nearest boundary
  past the nominal end 5 is the full stop at position 7, and the chunk is cut at
  the line break at position 11.
\<close>

theorem cutEnd_nearest_counterexample:
  "nearestBoundary boundaryText (0 + 5) = Some 7
   \<and> cutEnd boundaryText 5 0 = 11
   \<and> \<not> cutsAtNearestBoundary boundaryText 5 0"
  by (simp add: cutsAtNearestBoundary_def nearestBoundary_def window_def isBoundary_def
        cutEnd_def indexOf_def boundaryText_def lit_def newline_def period_def
        jsAdd_exact jsSub_exact)

section \<open>The retriever\<close>

lemma mapMatches_stored:
  "mapMatches (map (\<lambda>(src, t). storedMatch src t) stored)
     = Inr (map (\<lambda>(src, t). labelledBlock src t) stored)"
proof (induction stored)
  case Nil
  then show ?case by simp
next
  case (Cons a stored)
  obtain src t where a: "a = (src, t)" by (cases a)
  have "formatMatch (storedMatch src t) = Inr (labelledBlock src t)"
    by (cases src)
       (simp_all add: formatMatch_def storedMatch_def labelledBlock_def orElse_def truthy_def
          toString_def UNKNOWN_DOCUMENT_def Let_def)
  with Cons a show ?case by simp
qed

lemma mapMatches_length: "mapMatches ms = Inr blocks \<Longrightarrow> length blocks = length ms"
  by (induction ms arbitrary: blocks) (auto split: sum.splits)

text \<open>
  C3. Against an index that honours \<open>topK\<close>, \<open>retrieveKnowledge\<close> asks for two
  matches, so what it returns is the sentinel or the blocks of at most two
  matches; and when the index answers with no matches, or with no \<open>matches\<close>
  field, it returns the sentinel string and raises nothing.
\<close>

theorem retrieval_topK_sentinel:
  assumes "honoursTopK index"
    and "embedOne q = Inr v"
    and "index NAMESPACE \<lparr>vector = v, topK = 2, includeMetadata = True\<rparr> = Inr response"
  shows "(matches response = None \<or> matches response = Some []
            \<longrightarrow> retrieveKnowledge embedOne index q
                  = Inr (lit ''No relevant information found in the knowledge base.''))
         \<and> (\<forall>out. retrieveKnowledge embedOne index q = Inr out
               \<longrightarrow> out = lit ''No relevant information found in the knowledge base.''
                   \<or> (\<exists>ms blocks. matches response = Some ms \<and> length ms \<le> 2
                         \<and> mapMatches ms = Inr blocks \<and> length blocks = length ms
                         \<and> out = join separator blocks))"
proof -
  have top: "length ms \<le> 2" if "matches response = Some ms" for ms
  proof -
    have "response = \<lparr>matches = Some ms\<rparr>" using that by (cases response) simp
    with assms(1,3) show ?thesis unfolding honoursTopK_def by fastforce
  qed
  show ?thesis
    using assms(2,3) top
    by (auto simp: retrieveKnowledge_def NO_MATCH_def mapMatches_length split: option.splits sum.splits)
qed

theorem retrieval_topK_sentinel_witness:
  "retrieveKnowledge lengthEmbed emptyIndex authQuestion
     = Inr (lit ''No relevant information found in the knowledge base.'')"
proof -
  have h: "honoursTopK emptyIndex" by (simp add: honoursTopK_def emptyIndex_def)
  have e: "lengthEmbed authQuestion = Inr 5"
    by (simp add: lengthEmbed_def authQuestion_def lit_def)
  have i: "emptyIndex NAMESPACE \<lparr>vector = 5, topK = 2, includeMetadata = True\<rparr>
             = Inr \<lparr>matches = Some []\<rparr>"
    by (simp add: emptyIndex_def)
  show ?thesis
    using h e i
      retrieval_topK_sentinel [where index = emptyIndex and embedOne = lengthEmbed
        and q = authQuestion and v = 5 and response = "\<lparr>matches = Some []\<rparr>"]
    by simp
qed

text \<open>
  C9. When the index answers with a non-empty list of matches that carry their
  text, the context returned is one block per match, \<open>[source: <source>]\<close>, a
  newline and the text, where \<open><source>\<close> is the stored source, or
  \<open>unknown document\<close> when the metadata has none, and the blocks are joined by
  two newlines, three dashes and two newlines.
\<close>

theorem retrieval_context_format:
  assumes "embedOne q = Inr v"
    and "index NAMESPACE \<lparr>vector = v, topK = 2, includeMetadata = True\<rparr>
           = Inr \<lparr>matches = Some (map (\<lambda>(src, t). storedMatch src t) stored)\<rparr>"
    and "stored \<noteq> []"
  shows "retrieveKnowledge embedOne index q
           = Inr (join ([newline, newline] @ lit ''---'' @ [newline, newline])
                    (map (\<lambda>(src, t). labelledBlock src t) stored))"
  using assms by (simp add: retrieveKnowledge_def mapMatches_stored separator_def)

theorem retrieval_context_format_witness:
  "retrieveKnowledge lengthEmbed threeDocIndex authQuestion
     = Inr (lit ''[source: auth.md]'' @ [newline] @ lit ''Use JWT.''
            @ [newline, newline] @ lit ''---'' @ [newline, newline]
            @ lit ''[source: unknown document]'' @ [newline] @ lit ''Deploy with Docker.'')"
proof -
  have e: "lengthEmbed authQuestion = Inr 5"
    by (simp add: lengthEmbed_def authQuestion_def lit_def)
  have i: "threeDocIndex NAMESPACE \<lparr>vector = 5, topK = 2, includeMetadata = True\<rparr>
             = Inr \<lparr>matches = Some (map (\<lambda>(src, t). storedMatch src t)
                      [(Some (lit ''auth.md''), lit ''Use JWT.''),
                       (None, lit ''Deploy with Docker.'')])\<rparr>"
    by (simp add: threeDocIndex_def)
  show ?thesis
    using e i
      retrieval_context_format [where embedOne = lengthEmbed and q = authQuestion and v = 5
        and index = threeDocIndex
        and stored = "[(Some (lit ''auth.md''), lit ''Use JWT.''), (None, lit ''Deploy with Docker.'')]"]
    by (simp add: labelledBlock_def lit_def)
qed

section \<open>The orchestrator\<close>

lemma foldl_addPart_nonempty:
  "foldl addPart raw ps \<noteq> [] \<longleftrightarrow> raw \<noteq> [] \<or> list_ex (\<lambda>p. p \<noteq> OtherPart) ps"
proof (induction ps arbitrary: raw)
  case Nil
  then show ?case by simp
next
  case (Cons p ps)
  then show ?case by (cases p) (auto simp: addPart_def)
qed

lemma foldl_addStep_nonempty:
  "foldl addStep raw steps \<noteq> [] \<longleftrightarrow> raw \<noteq> [] \<or> hasToolResult steps"
proof (induction steps arbitrary: raw)
  case Nil
  then show ?case by (simp add: hasToolResult_def)
next
  case (Cons st steps)
  have "addStep raw st \<noteq> [] \<longleftrightarrow>
          raw \<noteq> [] \<or> (case content st of None \<Rightarrow> False
                        | Some ps \<Rightarrow> list_ex (\<lambda>p. p \<noteq> OtherPart) ps)"
    by (simp add: addStep_def foldl_addPart_nonempty split: option.splits)
  with Cons show ?case by (auto simp: hasToolResult_def)
qed

lemma collectToolOutput_nonempty:
  "collectToolOutput steps \<noteq> [] \<longleftrightarrow> hasToolResult steps"
  by (simp add: collectToolOutput_def foldl_addStep_nonempty)

lemma APOLOGY_nonempty: "APOLOGY \<noteq> []" "APOLOGY \<noteq> lit ''undefined''"
  by (simp_all add: APOLOGY_def lit_def)

lemma safetyNet_nonempty: "safetyNet v \<noteq> []" "safetyNet v \<noteq> lit ''undefined''"
  using APOLOGY_nonempty by (auto simp: safetyNet_def split: option.splits)

lemma safetyNet_nothing: "yieldsNothing v \<Longrightarrow> safetyNet v = APOLOGY"
  by (auto simp: safetyNet_def yieldsNothing_def)

lemma safetyNet_something: "\<not> yieldsNothing (Some a) \<Longrightarrow> safetyNet (Some a) = a"
  by (auto simp: safetyNet_def yieldsNothing_def)

lemma toolOnlyAgent_auth:
  "toolOnlyAgent authQuestion (searchCompanyDocs lengthEmbed threeDocIndex authQuestion)
     = Inr authTranscript"
  by code_simp

text \<open>
  A request whose body is there and has no prompt, or the empty prompt, is
  answered with status 400 and the body \<open>{error: 'Prompt is required'}\<close>,
  whatever the collaborators are, and no model call is made.
\<close>

lemma empty_prompt_rejected:
  assumes "reqBody req = Some b" and "prompt b = None \<or> prompt b = Some []"
  shows "chatWithAgent agent summarise embedOne index req
           = (\<lparr>status = 400, body = ErrorBody (lit ''Prompt is required'')\<rparr>, [])"
  using assms by (auto simp: chatWithAgent_def truthy_def error400_def)

text \<open>
  C8 fails on a request that has no parsed body: the prompt is missing, and the
  answer is not 400 but status 500 with the body
  \<open>{error: 'Internal Server Error'}\<close>, because destructuring \<open>req.body\<close> raises
  inside the \<open>try\<close> block. No model call is made on this path either.
\<close>

theorem missing_body_answered_500:
  "chatWithAgent agent summarise embedOne index \<lparr>reqBody = None\<rparr>
     = (\<lparr>status = 500, body = ErrorBody (lit ''Internal Server Error'')\<rparr>, [])"
  by (simp add: chatWithAgent_def error500_def)

text \<open>
  C2, as the code has it. When the primary call returns with no direct text and
  the transcript holds a tool-result payload, exactly one more model call is made,
  without tools, on the question and the concatenated payloads; its text is the
  final answer, or the apology when it yields nothing (and the response is 500
  when it fails). When the transcript holds no tool-result payload, no further
  model call is made and the apology is the final answer.
\<close>

theorem fallback_synthesis:
  assumes "reqBody req = Some b" and "prompt b = Some p" and "p \<noteq> []"
    and "agent p (searchCompanyDocs embedOne index p) = Inr result"
    and "gen_text result = None \<or> gen_text result = Some []"
  shows "(hasToolResult (gen_steps result) \<longrightarrow>
            (\<forall>t. summarise (synthesisPrompt p (collectToolOutput (gen_steps result))) = Inr t \<longrightarrow>
               chatWithAgent agent summarise embedOne index req
                 = (\<lparr>status = 200,
                      body = ChatBody p (if yieldsNothing t then APOLOGY else toString t)\<rparr>,
                    [ToolEnabledCall p,
                     PlainCall (synthesisPrompt p (collectToolOutput (gen_steps result)))]))
            \<and> (\<forall>e. summarise (synthesisPrompt p (collectToolOutput (gen_steps result))) = Inl e \<longrightarrow>
               chatWithAgent agent summarise embedOne index req
                 = (\<lparr>status = 500, body = ErrorBody (lit ''Internal Server Error'')\<rparr>,
                    [ToolEnabledCall p,
                     PlainCall (synthesisPrompt p (collectToolOutput (gen_steps result)))])))
         \<and> (\<not> hasToolResult (gen_steps result) \<longrightarrow>
               chatWithAgent agent summarise embedOne index req
                 = (\<lparr>status = 200, body = ChatBody p APOLOGY\<rparr>, [ToolEnabledCall p]))"
proof -
  have t: "truthy (prompt b)" "toString (prompt b) = p"
    using assms(2,3) by (simp_all add: truthy_def toString_def)
  have n: "\<not> truthy (gen_text result)" "yieldsNothing (gen_text result)"
    using assms(5) by (auto simp: truthy_def yieldsNothing_def)
  have s: "safetyNet t = (if yieldsNothing t then APOLOGY else toString t)" for t
    by (cases t) (auto simp: safetyNet_nothing safetyNet_something toString_def yieldsNothing_def)
  show ?thesis
    using t n assms(1,4) safetyNet_nothing [OF n(2)]
    by (simp add: chatWithAgent_def Let_def ok200_def error500_def s
          collectToolOutput_nonempty [symmetric])
qed

theorem fallback_synthesis_witness:
  "chatWithAgent toolOnlyAgent fixedSummary lengthEmbed threeDocIndex authRequest
     = (\<lparr>status = 200, body = ChatBody authQuestion (lit ''JWT [auth.md]'')\<rparr>,
        [ToolEnabledCall authQuestion,
         PlainCall (synthesisPrompt authQuestion (authContext @ [newline]))])"
proof -
  have p: "reqBody authRequest = Some \<lparr>prompt = Some authQuestion\<rparr>"
    by (simp add: authRequest_def)
  have n: "authQuestion \<noteq> []" by (simp add: authQuestion_def lit_def)
  have g: "gen_text authTranscript = None \<or> gen_text authTranscript = Some []"
    by (simp add: authTranscript_def)
  have h: "hasToolResult (gen_steps authTranscript)"
    by (simp add: authTranscript_def hasToolResult_def)
  have c: "collectToolOutput (gen_steps authTranscript) = authContext @ [newline]"
    by (simp add: authTranscript_def collectToolOutput_def addStep_def addPart_def orElse_def
          truthy_def toString_def)
  have y: "\<not> yieldsNothing (Some (lit ''JWT [auth.md]''))"
    by (simp add: yieldsNothing_def lit_def)
  show ?thesis
    using p n g h c y toolOnlyAgent_auth
      fallback_synthesis [where req = authRequest and p = authQuestion
        and b = "\<lparr>prompt = Some authQuestion\<rparr>"
        and agent = toolOnlyAgent and embedOne = lengthEmbed and index = threeDocIndex
        and result = authTranscript and summarise = fixedSummary]
    by (simp add: fixedSummary_def toString_def)
qed

text \<open>
  C2, as the specification words it, fails: \<open>silentAgent\<close> ends the primary loop
  with no text and no tool result; the only model call of the request is then the
  primary one, and the apology is returned although the summariser would have
  answered.
\<close>

theorem fallback_synthesis_counterexample:
  "gen_text \<lparr>gen_text = None, gen_steps = []\<rparr> = None
   \<and> silentAgent authQuestion (searchCompanyDocs lengthEmbed emptyIndex authQuestion)
       = Inr \<lparr>gen_text = None, gen_steps = []\<rparr>
   \<and> chatWithAgent silentAgent fixedSummary lengthEmbed emptyIndex authRequest
       = (\<lparr>status = 200, body = ChatBody authQuestion APOLOGY\<rparr>, [ToolEnabledCall authQuestion])"
  by (simp add: chatWithAgent_def silentAgent_def truthy_def toString_def collectToolOutput_def
        ok200_def safetyNet_def authRequest_def authQuestion_def lit_def Let_def)

text \<open>
  C5. For a request with a non-empty prompt, the answer of a 200 response is a
  non-empty string (and not the placeholder \<open>undefined\<close>); and when the primary
  call yields nothing, and the synthesis call, where one is made, returns and
  yields nothing, the response is 200 with the apology.
\<close>

theorem answer_never_empty:
  assumes "reqBody req = Some b" and "prompt b = Some p" and "p \<noteq> []"
  shows "(status (fst (chatWithAgent agent summarise embedOne index req)) = 200 \<longrightarrow>
            (\<exists>a. body (fst (chatWithAgent agent summarise embedOne index req)) = ChatBody p a
                 \<and> a \<noteq> [] \<and> a \<noteq> lit ''undefined''))
         \<and> (\<forall>result. agent p (searchCompanyDocs embedOne index p) = Inr result
               \<and> yieldsNothing (gen_text result)
               \<and> (gen_text result = Some (lit ''undefined'')
                     \<or> collectToolOutput (gen_steps result) = []
                     \<or> (\<exists>t. summarise (synthesisPrompt p (collectToolOutput (gen_steps result)))
                               = Inr t \<and> yieldsNothing t))
               \<longrightarrow> fst (chatWithAgent agent summarise embedOne index req)
                     = \<lparr>status = 200, body = ChatBody p APOLOGY\<rparr>)"
proof -
  have t: "reqBody req = Some b" "truthy (prompt b)" "toString (prompt b) = p"
    using assms by (simp_all add: truthy_def toString_def)
  have first: "status (fst (chatWithAgent agent summarise embedOne index req)) = 200 \<longrightarrow>
            (\<exists>a. body (fst (chatWithAgent agent summarise embedOne index req)) = ChatBody p a
                 \<and> a \<noteq> [] \<and> a \<noteq> lit ''undefined'')"
    using t safetyNet_nonempty
    by (auto simp: chatWithAgent_def Let_def ok200_def error500_def split: sum.splits)
  have second: "fst (chatWithAgent agent summarise embedOne index req)
                     = \<lparr>status = 200, body = ChatBody p APOLOGY\<rparr>"
    if r: "agent p (searchCompanyDocs embedOne index p) = Inr result"
      and y: "yieldsNothing (gen_text result)"
      and f: "gen_text result = Some (lit ''undefined'')
                \<or> collectToolOutput (gen_steps result) = []
                \<or> (\<exists>t. summarise (synthesisPrompt p (collectToolOutput (gen_steps result)))
                               = Inr t \<and> yieldsNothing t)"
    for result
  proof (cases "truthy (gen_text result)")
    case True
    then show ?thesis
      using t r safetyNet_nothing [OF y] by (simp add: chatWithAgent_def Let_def ok200_def)
  next
    case False
    then have "gen_text result \<noteq> Some (lit ''undefined'')"
      by (auto simp: truthy_def lit_def)
    with f consider "collectToolOutput (gen_steps result) = []"
      | t' where "collectToolOutput (gen_steps result) \<noteq> []"
          "summarise (synthesisPrompt p (collectToolOutput (gen_steps result))) = Inr t'"
          "yieldsNothing t'"
      by blast
    then show ?thesis
    proof cases
      case 1
      then show ?thesis
        using t r False safetyNet_nothing [OF y]
        by (simp add: chatWithAgent_def Let_def ok200_def)
    next
      case 2
      then show ?thesis
        using t r False safetyNet_nothing [OF 2(3)]
        by (simp add: chatWithAgent_def Let_def ok200_def)
    qed
  qed
  show ?thesis using first second by blast
qed

theorem answer_never_empty_witness:
  "fst (chatWithAgent toolOnlyAgent emptySummary lengthEmbed threeDocIndex authRequest)
     = \<lparr>status = 200,
        body = ChatBody authQuestion
          (lit ''Sorry, I found information in the documentation, but couldn't properly summarize it.'')\<rparr>"
proof -
  have p: "reqBody authRequest = Some \<lparr>prompt = Some authQuestion\<rparr>"
    by (simp add: authRequest_def)
  have n: "authQuestion \<noteq> []" by (simp add: authQuestion_def lit_def)
  have y: "yieldsNothing (gen_text authTranscript)"
    by (simp add: authTranscript_def yieldsNothing_def)
  have e: "\<exists>t. emptySummary (synthesisPrompt authQuestion
                   (collectToolOutput (gen_steps authTranscript))) = Inr t \<and> yieldsNothing t"
    by (simp add: emptySummary_def yieldsNothing_def)
  show ?thesis
    using p n y e toolOnlyAgent_auth
      answer_never_empty [where req = authRequest and p = authQuestion
        and b = "\<lparr>prompt = Some authQuestion\<rparr>"
        and agent = toolOnlyAgent and embedOne = lengthEmbed and index = threeDocIndex
        and summarise = emptySummary]
    by (simp add: APOLOGY_def)
qed

section \<open>The ingestion pipeline\<close>

lemma map_snd_enumerate: "map (\<lambda>(i, x). f x) (enumerate n xs) = map f xs"
  by (induction xs arbitrary: n) auto

lemma buildVectors_ids:
  "map rec_id (buildVectors allChunks embeddings)
     = map (\<lambda>c. ci_source c @ lit ''-chunk-'' @ showNat (ci_chunkIndex c)) allChunks"
proof -
  have "map rec_id (buildVectors allChunks embeddings)
          = map (\<lambda>(i, c). ci_source c @ lit ''-chunk-'' @ showNat (ci_chunkIndex c))
              (enumerate 0 allChunks)"
    by (simp add: buildVectors_def case_prod_unfold)
  then show ?thesis by (simp add: map_snd_enumerate)
qed

lemma buildVectors_metadata:
  "map rec_metadata (buildVectors allChunks embeddings)
     = map (\<lambda>c. \<lparr>md_text = Some (ci_text c), md_source = Some (ci_source c)\<rparr>) allChunks"
proof -
  have "map rec_metadata (buildVectors allChunks embeddings)
          = map (\<lambda>(i, c). \<lparr>md_text = Some (ci_text c), md_source = Some (ci_source c)\<rparr>)
              (enumerate 0 allChunks)"
    by (simp add: buildVectors_def case_prod_unfold)
  then show ?thesis by (simp add: map_snd_enumerate)
qed

lemma dom_upsertInto: "dom (upsertInto store records) = dom store \<union> rec_id ` set records"
  unfolding upsertInto_def
  by (induction records arbitrary: store) auto

lemma ingest_Upserted:
  assumes "ingest docsExists dirEntries readFile embedMany upsert = Some (Upserted ns records)"
  shows "\<exists>allChunks embeddings.
           collectChunks readFile (filter isDocFile dirEntries) = Some allChunks
           \<and> records = buildVectors allChunks embeddings \<and> ns = NAMESPACE"
  using assms
  by (auto simp: ingest_def Let_def split: if_splits option.splits sum.splits)

text \<open>
  C7. The records that a run upserts are one per chunk, with the id
  \<open><source>-chunk-<chunkIndex>\<close> and the metadata \<open>{text, source}\<close> of the chunk;
  a second run over the same docs folder, whatever the embeddings it gets, produces
  records with the same ids, so upserting them leaves the set of ids in the index
  as it was.
\<close>

theorem record_ids_stable:
  assumes "ingest docsExists dirEntries readFile embedMany upsert = Some (Upserted ns records)"
    and "ingest docsExists dirEntries readFile embedMany' upsert' = Some (Upserted ns' records')"
  shows "(\<exists>allChunks. collectChunks readFile (filter isDocFile dirEntries) = Some allChunks
            \<and> map rec_id records
                = map (\<lambda>c. ci_source c @ lit ''-chunk-'' @ showNat (ci_chunkIndex c)) allChunks
            \<and> map rec_metadata records
                = map (\<lambda>c. \<lparr>md_text = Some (ci_text c), md_source = Some (ci_source c)\<rparr>)
                    allChunks)
         \<and> map rec_id records' = map rec_id records
         \<and> dom (upsertInto (upsertInto store records) records') = dom (upsertInto store records)"
proof -
  obtain allChunks embeddings where
    a: "collectChunks readFile (filter isDocFile dirEntries) = Some allChunks"
       "records = buildVectors allChunks embeddings"
    using ingest_Upserted [OF assms(1)] by blast
  obtain allChunks' embeddings' where
    b: "collectChunks readFile (filter isDocFile dirEntries) = Some allChunks'"
       "records' = buildVectors allChunks' embeddings'"
    using ingest_Upserted [OF assms(2)] by blast
  have same: "allChunks' = allChunks" using a(1) b(1) by simp
  have ids: "map rec_id records' = map rec_id records"
    using a(2) b(2) same by (simp add: buildVectors_ids)
  then have "rec_id ` set records' = rec_id ` set records"
    by (metis set_map)
  then have "dom (upsertInto (upsertInto store records) records') = dom (upsertInto store records)"
    by (auto simp: dom_upsertInto)
  with a ids show ?thesis
    by (auto simp: buildVectors_ids buildVectors_metadata)
qed

theorem record_ids_stable_witness:
  "ingest True docsFolder exampleDoc lengthEmbedMany acceptUpsert
     = Some (Upserted NAMESPACE [notesRecord 38])
   \<and> ingest True docsFolder exampleDoc doubleEmbedMany acceptUpsert
     = Some (Upserted NAMESPACE [notesRecord 76])
   \<and> map rec_id [notesRecord 76] = map rec_id [notesRecord 38]
   \<and> dom (upsertInto (upsertInto Map.empty [notesRecord 38]) [notesRecord 76])
       = dom (upsertInto Map.empty [notesRecord 38])"
proof -
  have r1: "ingest True docsFolder exampleDoc lengthEmbedMany acceptUpsert
              = Some (Upserted NAMESPACE [notesRecord 38])"
    by code_simp
  have r2: "ingest True docsFolder exampleDoc doubleEmbedMany acceptUpsert
              = Some (Upserted NAMESPACE [notesRecord 76])"
    by code_simp
  show ?thesis
    using r1 r2 record_ids_stable [OF r1 r2, of Map.empty] by simp
qed

end
